theory Spec2Isabelle
  imports Main
begin

section \<open>Strings\<close>

text \<open>
  A Python \<open>str\<close> is modelled as a \<open>string\<close>, one \<open>char\<close> per code point; the model
  covers the texts whose code points are below 256. On these, \<open>str.isspace\<close> and the
  regular expression class \<open>\s\<close> accept the same twelve characters, \<open>.\<close> accepts
  every character but the line feed, and \<open>str.lower\<close> maps a character to a character.
\<close>

abbreviation newline :: char where
  "newline \<equiv> CHR 0x0A"

definition whitespace :: "char list" where
  "whitespace = [CHR 0x09, CHR 0x0A, CHR 0x0B, CHR 0x0C, CHR 0x0D,
                 CHR 0x1C, CHR 0x1D, CHR 0x1E, CHR 0x1F, CHR 0x20, CHR 0x85, CHR 0xA0]"

definition is_space :: "char \<Rightarrow> bool" where
  "is_space c = (c \<in> set whitespace)"

text \<open>\<open>s.strip()\<close>: leading and trailing whitespace removed.\<close>

definition lstrip :: "string \<Rightarrow> string" where
  "lstrip s = dropWhile is_space s"

definition rstrip :: "string \<Rightarrow> string" where
  "rstrip s = rev (dropWhile is_space (rev s))"

definition strip :: "string \<Rightarrow> string" where
  "strip s = rstrip (lstrip s)"

text \<open>\<open>s.startswith(p)\<close>.\<close>

definition startswith :: "string \<Rightarrow> string \<Rightarrow> bool" where
  "startswith s p = (take (length p) s = p)"

text \<open>\<open>sub in s\<close>: \<open>sub\<close> occurs in \<open>s\<close> as a contiguous run.\<close>

fun contains :: "string \<Rightarrow> string \<Rightarrow> bool" where
  "contains sub [] = (sub = [])"
| "contains sub (c # s) = (startswith (c # s) sub \<or> contains sub s)"

text \<open>\<open>s.lower()\<close> on code points below 256: the capitals A to Z and U+00C0 to U+00DE
  (the multiplication sign U+00D7 apart) move up by 32.\<close>

definition lower_char :: "char \<Rightarrow> char" where
  "lower_char c =
     (let n = (of_char c :: nat)
      in if (65 \<le> n \<and> n \<le> 90) \<or> (192 \<le> n \<and> n \<le> 222 \<and> n \<noteq> 215)
         then char_of (n + 32) else c)"

definition lower :: "string \<Rightarrow> string" where
  "lower s = map lower_char s"

text \<open>\<open>s.split('\n')\<close>: the pieces between line feeds; never the empty list.\<close>

fun split_nl :: "string \<Rightarrow> string list" where
  "split_nl [] = [] # []"
| "split_nl (c # s) =
     (if c = newline then [] # split_nl s
      else (case split_nl s of [] \<Rightarrow> [c] # [] | l # ls \<Rightarrow> (c # l) # ls))"

text \<open>\<open>str(n)\<close> for an integer: decimal digits, a minus sign when negative.\<close>

fun str_nat :: "nat \<Rightarrow> string" where
  "str_nat n =
     (if n < 10 then [char_of (48 + n)]
      else str_nat (n div 10) @ [char_of (48 + n mod 10)])"

definition str_int :: "int \<Rightarrow> string" where
  "str_int i = (if i < 0 then CHR ''-'' # str_nat (nat (- i)) else str_nat (nat i))"

section \<open>The regular expressions\<close>

text \<open>
  \<open>re.match\<close> is a backtracking matcher: it returns the first match in its search
  order. Each construct of the two patterns is a function from the rest of the pattern (a
  continuation on the remaining text) to a matcher; \<open>None\<close> is failure, and the capture
  groups of a match are returned in pattern order.

  \<open>(.+?)\<close>, a lazy capture group: take one character that is not a line feed, try the rest
  of the pattern, and on failure take one character more.
\<close>

fun dot_lazy :: "(string \<Rightarrow> 'a option) \<Rightarrow> string \<Rightarrow> string \<Rightarrow> (string \<times> 'a) option" where
  "dot_lazy k acc [] = None"
| "dot_lazy k acc (c # s) =
     (if c = newline then None
      else (case k s of
              Some r \<Rightarrow> Some (acc @ [c], r)
            | None \<Rightarrow> dot_lazy k (acc @ [c]) s))"

definition grp :: "(string \<Rightarrow> 'a option) \<Rightarrow> string \<Rightarrow> (string \<times> 'a) option" where
  "grp k s = dot_lazy k [] s"

text \<open>\<open>\s{2,}\<close>, greedy: take the whole run of whitespace, try the rest of the pattern, and
  on failure give back one character at a time, down to two.\<close>

fun give_back :: "(string \<Rightarrow> 'a option) \<Rightarrow> string \<Rightarrow> nat \<Rightarrow> 'a option" where
  "give_back k s n =
     (if n < 2 then None
      else (case k (drop n s) of
              Some r \<Rightarrow> Some r
            | None \<Rightarrow> give_back k s (n - 1)))"

definition sep :: "(string \<Rightarrow> 'a option) \<Rightarrow> string \<Rightarrow> 'a option" where
  "sep k s = give_back k s (length (takeWhile is_space s))"

text \<open>\<open>(?:\s{2,}(.+?))?\<close>, greedy: first with the group, then without it (the capture is
  then unset).\<close>

definition opt_sep_grp ::
  "(string \<Rightarrow> 'a option) \<Rightarrow> string \<Rightarrow> (string option \<times> 'a) option" where
  "opt_sep_grp k s =
     (case sep (grp k) s of
        Some (g, r) \<Rightarrow> Some (Some g, r)
      | None \<Rightarrow> (case k s of Some r \<Rightarrow> Some (None, r) | None \<Rightarrow> None))"

text \<open>\<open>$\<close>: the end of the text, or just before a line feed that ends it.\<close>

definition eol :: "string \<Rightarrow> unit option" where
  "eol s = (if s = [] \<or> s = [newline] then Some () else None)"

text \<open>The pattern of the installed-list and search parsers, and the pattern of the
  upgradable-list parser.\<close>

definition list_pattern ::
  "string \<Rightarrow> (string \<times> string \<times> string \<times> string option \<times> string option \<times> unit) option" where
  "list_pattern = grp (sep (grp (sep (grp (opt_sep_grp (opt_sep_grp eol))))))"

definition upgrade_pattern ::
  "string \<Rightarrow> (string \<times> string \<times> string \<times> string \<times> string \<times> unit) option" where
  "upgrade_pattern = grp (sep (grp (sep (grp (sep (grp (sep (grp eol))))))))"

section \<open>Package records and the three parsers\<close>

text \<open>The dataclass \<open>Package\<close>; its field \<open>id\<close> is \<open>package_id\<close> here.\<close>

record package =
  name :: string
  package_id :: string
  version :: string
  source :: string
  available_version :: string

text \<open>The scan for the separator line; \<open>None\<close> is the source's \<open>separator_idx == -1\<close>.\<close>

fun find_separator :: "nat \<Rightarrow> string list \<Rightarrow> nat option" where
  "find_separator idx [] = None"
| "find_separator idx (line # rest) =
     (if startswith (strip line) ''---'' then Some idx
      else find_separator (Suc idx) rest)"

text \<open>The test that skips progress indicators and other non-data lines.\<close>

definition skip_line :: "string \<Rightarrow> bool" where
  "skip_line line =
     (length line < 10 \<or> startswith line ''-'' \<or> startswith line [CHR 0x5C]
      \<or> startswith line ''|'' \<or> startswith line ''/'')"

text \<open>\<open>match.group(i).strip() if match.group(i) else ""\<close>.\<close>

definition group_or_empty :: "string option \<Rightarrow> string" where
  "group_or_empty g = (case g of None \<Rightarrow> [] | Some t \<Rightarrow> if t = [] then [] else strip t)"

definition list_record ::
  "string \<times> string \<times> string \<times> string option \<times> string option \<times> unit \<Rightarrow> package" where
  "list_record m =
     (case m of (g1, g2, g3, g4, g5, u) \<Rightarrow>
        let group4 = group_or_empty g4; group5 = group_or_empty g5
        in if group5 \<noteq> [] then
             \<lparr>name = strip g1, package_id = strip g2, version = strip g3,
              source = group5, available_version = group4\<rparr>
           else if group4 \<noteq> [] \<and> (contains ''winget'' (lower group4)
                     \<or> contains ''msstore'' (lower group4) \<or> length group4 < 20) then
             \<lparr>name = strip g1, package_id = strip g2, version = strip g3,
              source = group4, available_version = []\<rparr>
           else
             \<lparr>name = strip g1, package_id = strip g2, version = strip g3,
              source = ''winget'', available_version = group4\<rparr>)"

definition search_record ::
  "string \<times> string \<times> string \<times> string option \<times> string option \<times> unit \<Rightarrow> package" where
  "search_record m =
     (case m of (g1, g2, g3, g4, g5, u) \<Rightarrow>
        let group4 = group_or_empty g4; group5 = group_or_empty g5
        in if group5 \<noteq> [] then
             \<lparr>name = strip g1, package_id = strip g2, version = strip g3,
              source = group5,
              available_version =
                (if group4 \<noteq> [] \<and> group4 \<notin> set [''Command:'', ''Tag:'', ''Tag'']
                 then group4 else [])\<rparr>
           else if group4 \<noteq> [] \<and> (contains ''winget'' (lower group4)
                     \<or> contains ''msstore'' (lower group4) \<or> length group4 < 20) then
             \<lparr>name = strip g1, package_id = strip g2, version = strip g3,
              source = group4, available_version = []\<rparr>
           else
             \<lparr>name = strip g1, package_id = strip g2, version = strip g3,
              source = ''winget'', available_version = group4\<rparr>)"

definition upgrade_record ::
  "string \<times> string \<times> string \<times> string \<times> string \<times> unit \<Rightarrow> package" where
  "upgrade_record m =
     (case m of (g1, g2, g3, g4, g5, u) \<Rightarrow>
        \<lparr>name = strip g1, package_id = strip g2, version = strip g3,
         source = strip g5, available_version = strip g4\<rparr>)"

text \<open>
  The three parsers differ only in the pattern and in the way the record is built from
  the groups of a match; what they share is written once. First the body of the loop over
  the data lines: \<open>None\<close> when the line is skipped or does not match, the record that
  is appended otherwise.
\<close>

definition data_line :: "(string \<Rightarrow> 'm option) \<Rightarrow> ('m \<Rightarrow> package) \<Rightarrow> string \<Rightarrow> package option" where
  "data_line pattern build raw =
     (let line = strip raw
      in if line = [] then None
         else if skip_line line then None
         else (case pattern line of None \<Rightarrow> None | Some m \<Rightarrow> Some (build m)))"

definition list_line :: "string \<Rightarrow> package option" where
  "list_line = data_line list_pattern list_record"

definition search_line :: "string \<Rightarrow> package option" where
  "search_line = data_line list_pattern search_record"

definition upgrade_line :: "string \<Rightarrow> package option" where
  "upgrade_line = data_line upgrade_pattern upgrade_record"

text \<open>The loop: \<open>packages.append\<close> for every line that gives a record.\<close>

fun collect :: "(string \<Rightarrow> package option) \<Rightarrow> package list \<Rightarrow> string list \<Rightarrow> package list" where
  "collect body packages [] = packages"
| "collect body packages (line # rest) =
     (case body line of
        None \<Rightarrow> collect body packages rest
      | Some p \<Rightarrow> collect body (packages @ [p]) rest)"

definition parse_table :: "(string \<Rightarrow> package option) \<Rightarrow> string \<Rightarrow> package list" where
  "parse_table body output =
     (let lines = split_nl (strip output)
      in case find_separator 0 lines of
           None \<Rightarrow> []
         | Some separator_idx \<Rightarrow> collect body [] (drop (separator_idx + 1) lines))"

definition parse_list_output :: "string \<Rightarrow> package list" where
  "parse_list_output = parse_table list_line"

definition parse_search_output :: "string \<Rightarrow> package list" where
  "parse_search_output = parse_table search_line"

definition parse_upgrade_output :: "string \<Rightarrow> package list" where
  "parse_upgrade_output = parse_table upgrade_line"

section \<open>The process runner and the fetch operations\<close>

text \<open>
  What \<open>subprocess.run\<close> does is the answer of the operating system: the process completes
  with its output, its error output and its return code, or one of the exceptions that
  \<open>_run_command\<close> catches is raised (the last case carries \<open>str(e)\<close>). The runner and
  the fetch operations are functions of that answer; the argument vector (\<open>list\<close>,
  \<open>search\<close> with the query, \<open>upgrade\<close>) and the timeout only reach the operating system.
\<close>

datatype run_result =
    Completed string string int
  | TimeoutExpired
  | FileNotFoundError
  | PermissionError
  | OtherException string

definition run_command :: "run_result \<Rightarrow> string \<times> int" where
  "run_command result =
     (case result of
        Completed stdout stderr returncode \<Rightarrow>
          if returncode \<noteq> 0 \<and> stderr \<noteq> []
          then (stdout @ [newline] @ ''STDERR: '' @ stderr, returncode)
          else (stdout, returncode)
      | TimeoutExpired \<Rightarrow> (''Command timed out'', 1)
      | FileNotFoundError \<Rightarrow>
          (''winget command not found. Is Windows Package Manager installed?'', 1)
      | PermissionError \<Rightarrow>
          (''Permission denied. Administrator privileges may be required.'', 1)
      | OtherException msg \<Rightarrow> (''Error: '' @ msg, 1))"

definition list_installed :: "run_result \<Rightarrow> package list \<times> string option" where
  "list_installed result =
     (case run_command result of (stdout, return_code) \<Rightarrow>
        if return_code \<noteq> 0 then
          ([], Some (if contains ''Error'' stdout \<or> contains ''Permission'' stdout then stdout
                     else ''Command failed with return code '' @ str_int return_code))
        else (parse_list_output stdout, None))"

definition search :: "run_result \<Rightarrow> package list \<times> string option" where
  "search result =
     (case run_command result of (stdout, return_code) \<Rightarrow>
        if return_code \<noteq> 0 then
          ([], Some (if contains ''Error'' stdout \<or> contains ''Permission'' stdout then stdout
                     else ''Command failed with return code '' @ str_int return_code))
        else (parse_search_output stdout, None))"

definition check_for_updates :: "run_result \<Rightarrow> package list \<times> string option" where
  "check_for_updates result =
     (case run_command result of (stdout, return_code) \<Rightarrow>
        if return_code \<noteq> 0 then
          ([], Some (if contains ''Error'' stdout \<or> contains ''Permission'' stdout then stdout
                     else ''Command failed with return code '' @ str_int return_code))
        else (parse_upgrade_output stdout, None))"

section \<open>What the constructs of the patterns accept\<close>

text \<open>
  These describe the code, not the specification. \<open>.+\<close> accepts any non-empty run of
  characters other than the line feed, blanks included; \<open>\s{2,}\<close> accepts any run of two or
  more whitespace characters. The pattern of the upgradable-list parser accepts a text
  exactly when it is five such runs with a whitespace run between each two, up to a final
  line feed (\<open>upgrade_pattern_iff\<close> below).
\<close>

definition any_run :: "string \<Rightarrow> bool" where
  "any_run f = (f \<noteq> [] \<and> newline \<notin> set f)"

definition whitespace_run :: "string \<Rightarrow> bool" where
  "whitespace_run w = (2 \<le> length w \<and> list_all is_space w)"


section \<open>Columns and sources, as the specification describes them\<close>





text \<open>A recognizable source: a value that contains \<open>winget\<close> or \<open>msstore\<close>, whatever the
  case of its letters, or that has fewer than 20 characters.\<close>

definition recognizable_source :: "string \<Rightarrow> bool" where
  "recognizable_source g =
     (contains ''winget'' (lower g) \<or> contains ''msstore'' (lower g) \<or> length g < 20)"

text \<open>A matching data line: not empty once trimmed, not skipped, and accepted by the
  pattern.\<close>

definition matching :: "(string \<Rightarrow> 'm option) \<Rightarrow> string \<Rightarrow> bool" where
  "matching pattern raw =
     (strip raw \<noteq> [] \<and> \<not> skip_line (strip raw) \<and> pattern (strip raw) \<noteq> None)"

section \<open>The matcher finds a match exactly when there is one\<close>

lemma dot_lazy_sound:
  "dot_lazy k acc s = Some (g, r) \<Longrightarrow> \<exists>u v. s = u @ v \<and> any_run u \<and> g = acc @ u \<and> k v = Some r"
proof (induction s arbitrary: acc)
  case Nil
  then show ?case by simp
next
  case (Cons c s)
  from Cons.prems have c: "c \<noteq> newline" by (auto split: if_splits)
  show ?case
  proof (cases "k s")
    case None
    with Cons.prems c have "dot_lazy k (acc @ [c]) s = Some (g, r)" by simp
    from Cons.IH [OF this] obtain u v where
      "s = u @ v" "any_run u" "g = (acc @ [c]) @ u" "k v = Some r" by blast
    with c have "c # s = (c # u) @ v \<and> any_run (c # u) \<and> g = acc @ (c # u) \<and> k v = Some r"
      by (simp add: any_run_def)
    then show ?thesis by blast
  next
    case (Some r')
    with Cons.prems c have "g = acc @ [c]" "r' = r" by simp_all
    with Some c have "c # s = [c] @ s \<and> any_run [c] \<and> g = acc @ [c] \<and> k s = Some r"
      by (simp add: any_run_def)
    then show ?thesis by blast
  qed
qed

lemma dot_lazy_complete:
  "any_run u \<Longrightarrow> k v \<noteq> None \<Longrightarrow> dot_lazy k acc (u @ v) \<noteq> None"
proof (induction u arbitrary: acc)
  case Nil
  then show ?case by (simp add: any_run_def)
next
  case (Cons c u)
  from Cons.prems have c: "c \<noteq> newline" by (auto simp: any_run_def)
  show ?case
  proof (cases "k (u @ v)")
    case None
    with Cons.prems have "u \<noteq> []" by auto
    with Cons.prems have "any_run u" by (simp add: any_run_def)
    from Cons.IH [OF this Cons.prems(2)] None c show ?thesis by simp
  next
    case (Some r)
    with c show ?thesis by simp
  qed
qed

lemma give_back_sound:
  "give_back k s n = Some r \<Longrightarrow> \<exists>m. 2 \<le> m \<and> m \<le> n \<and> k (drop m s) = Some r"
proof (induction k s n rule: give_back.induct)
  case (1 k s n)
  from "1.prems" have n: "\<not> n < 2" by (auto split: if_splits)
  show ?case
  proof (cases "k (drop n s)")
    case None
    with "1.prems" n have "give_back k s (n - 1) = Some r" by (simp split: if_splits)
    from "1.IH" [OF n None this] obtain m where "2 \<le> m" "m \<le> n - 1" "k (drop m s) = Some r"
      by blast
    then have "2 \<le> m \<and> m \<le> n \<and> k (drop m s) = Some r" by simp
    then show ?thesis by blast
  next
    case (Some r')
    with "1.prems" n have "r' = r" by (simp split: if_splits)
    with Some n have "2 \<le> n \<and> n \<le> n \<and> k (drop n s) = Some r" by simp
    then show ?thesis by blast
  qed
qed

lemma give_back_complete:
  "2 \<le> m \<Longrightarrow> m \<le> n \<Longrightarrow> k (drop m s) \<noteq> None \<Longrightarrow> give_back k s n \<noteq> None"
proof (induction k s n rule: give_back.induct)
  case (1 k s n)
  from "1.prems" have n: "\<not> n < 2" by simp
  show ?case
  proof (cases "k (drop n s)")
    case None
    with "1.prems" have "m \<noteq> n" by auto
    with "1.prems" have "m \<le> n - 1" by simp
    from "1.IH" [OF n None "1.prems"(1) this "1.prems"(3)] n None show ?thesis
      by (subst give_back.simps) simp
  next
    case (Some r)
    with n show ?thesis by (subst give_back.simps) simp
  qed
qed

lemma take_within_takeWhile:
  assumes "m \<le> length (takeWhile P s)"
  shows "list_all P (take m s)"
proof -
  have "take m s = take m (takeWhile P s @ dropWhile P s)" by simp
  also have "\<dots> = take m (takeWhile P s)" using assms by (simp only: take_append) simp
  finally have "set (take m s) \<subseteq> set (takeWhile P s)" by (simp only: set_take_subset)
  then show ?thesis by (auto simp: list_all_iff dest: set_takeWhileD)
qed

lemma sep_sound:
  assumes "sep k s = Some r"
  shows "\<exists>w v. s = w @ v \<and> whitespace_run w \<and> k v = Some r"
proof -
  from assms have "give_back k s (length (takeWhile is_space s)) = Some r"
    by (simp only: sep_def)
  from give_back_sound [OF this] obtain m where m: "2 \<le> m"
    "m \<le> length (takeWhile is_space s)" "k (drop m s) = Some r"
    by blast
  from m(2) have "list_all is_space (take m s)" by (rule take_within_takeWhile)
  moreover have "m \<le> length s"
    using m(2) length_takeWhile_le [of is_space s] by simp
  ultimately have "s = take m s @ drop m s \<and> whitespace_run (take m s) \<and> k (drop m s) = Some r"
    using m by (simp add: whitespace_run_def)
  then show ?thesis by blast
qed

lemma sep_complete:
  assumes "whitespace_run w" and "k v \<noteq> None"
  shows "sep k (w @ v) \<noteq> None"
proof -
  from assms(1) have all: "\<And>c. c \<in> set w \<Longrightarrow> is_space c" and len: "2 \<le> length w"
    by (simp_all add: whitespace_run_def list_all_iff)
  from all have "takeWhile is_space (w @ v) = w @ takeWhile is_space v"
    by (rule takeWhile_append2)
  then have "length (takeWhile is_space (w @ v)) = length w + length (takeWhile is_space v)"
    by (simp only: length_append)
  then have le: "length w \<le> length (takeWhile is_space (w @ v))"
    by (simp only: le_add1)
  from assms(2) have "k (drop (length w) (w @ v)) \<noteq> None" by simp
  from give_back_complete [where k = k and s = "w @ v", OF len le this] show ?thesis
    unfolding sep_def by assumption
qed

lemma grp_sound:
  assumes "grp k s = Some (g, r)"
  shows "\<exists>v. s = g @ v \<and> any_run g \<and> k v = Some r"
proof -
  from assms have "dot_lazy k [] s = Some (g, r)" by (simp only: grp_def)
  from dot_lazy_sound [OF this] obtain u v where
    "s = u @ v" "any_run u" "g = [] @ u" "k v = Some r" by blast
  then have "s = g @ v \<and> any_run g \<and> k v = Some r" by simp
  then show ?thesis by blast
qed

lemma grp_complete: "any_run u \<Longrightarrow> k v \<noteq> None \<Longrightarrow> grp k (u @ v) \<noteq> None"
  unfolding grp_def by (rule dot_lazy_complete)

lemma sep_grp_sound:
  assumes "sep (grp k) s = Some (g, r)"
  shows "\<exists>w v. s = w @ g @ v \<and> whitespace_run w \<and> any_run g \<and> k v = Some r"
proof -
  from sep_sound [OF assms] obtain w t where "s = w @ t" "whitespace_run w" "grp k t = Some (g, r)"
    by blast
  moreover from grp_sound [OF this(3)] obtain v where "t = g @ v" "any_run g" "k v = Some r"
    by blast
  ultimately have "s = w @ g @ v \<and> whitespace_run w \<and> any_run g \<and> k v = Some r" by simp
  then show ?thesis by blast
qed

lemma sep_grp_complete:
  "whitespace_run w \<Longrightarrow> any_run u \<Longrightarrow> k v \<noteq> None \<Longrightarrow> sep (grp k) (w @ u @ v) \<noteq> None"
  by (rule sep_complete, assumption, rule grp_complete)

lemma eol_Some: "eol e = Some u \<longleftrightarrow> (e = [] \<or> e = [newline])"
  by (simp add: eol_def)

lemma upgrade_pattern_sound:
  assumes "upgrade_pattern s = Some (g1, g2, g3, g4, g5, u)"
  shows "\<exists>w1 w2 w3 w4 e. s = g1 @ w1 @ g2 @ w2 @ g3 @ w3 @ g4 @ w4 @ g5 @ e
          \<and> any_run g1 \<and> whitespace_run w1 \<and> any_run g2 \<and> whitespace_run w2 \<and> any_run g3 \<and> whitespace_run w3
          \<and> any_run g4 \<and> whitespace_run w4 \<and> any_run g5 \<and> (e = [] \<or> e = [newline])"
proof -
  from assms obtain t1 where 1: "s = g1 @ t1" "any_run g1"
    and k1: "sep (grp (sep (grp (sep (grp (sep (grp eol))))))) t1 = Some (g2, g3, g4, g5, u)"
    unfolding upgrade_pattern_def by (blast dest: grp_sound)
  from sep_grp_sound [OF k1] obtain w1 t2 where 2: "t1 = w1 @ g2 @ t2" "whitespace_run w1" "any_run g2"
    and k2: "sep (grp (sep (grp (sep (grp eol))))) t2 = Some (g3, g4, g5, u)" by blast
  from sep_grp_sound [OF k2] obtain w2 t3 where 3: "t2 = w2 @ g3 @ t3" "whitespace_run w2" "any_run g3"
    and k3: "sep (grp (sep (grp eol))) t3 = Some (g4, g5, u)" by blast
  from sep_grp_sound [OF k3] obtain w3 t4 where 4: "t3 = w3 @ g4 @ t4" "whitespace_run w3" "any_run g4"
    and k4: "sep (grp eol) t4 = Some (g5, u)" by blast
  from sep_grp_sound [OF k4] obtain w4 e where 5: "t4 = w4 @ g5 @ e" "whitespace_run w4" "any_run g5"
    and k5: "eol e = Some u" by blast
  from k5 have "e = [] \<or> e = [newline]" by (simp add: eol_Some)
  with 1 2 3 4 5 have "s = g1 @ w1 @ g2 @ w2 @ g3 @ w3 @ g4 @ w4 @ g5 @ e
          \<and> any_run g1 \<and> whitespace_run w1 \<and> any_run g2 \<and> whitespace_run w2 \<and> any_run g3 \<and> whitespace_run w3
          \<and> any_run g4 \<and> whitespace_run w4 \<and> any_run g5 \<and> (e = [] \<or> e = [newline])" by simp
  then show ?thesis by blast
qed



section \<open>Trimming\<close>

lemma lstrip_decomp: "s = takeWhile is_space s @ lstrip s"
  by (simp add: lstrip_def)

lemma rstrip_decomp: "s = rstrip s @ rev (takeWhile is_space (rev s))"
proof -
  have "rev (dropWhile is_space (rev s)) @ rev (takeWhile is_space (rev s))
      = rev (takeWhile is_space (rev s) @ dropWhile is_space (rev s))"
    by (simp only: rev_append)
  also have "\<dots> = s" by (simp only: takeWhile_dropWhile_id rev_rev_ident)
  finally show ?thesis by (simp add: rstrip_def)
qed

lemma strip_decomp:
  "\<exists>w w'. s = w @ strip s @ w' \<and> list_all is_space w \<and> list_all is_space w'"
proof -
  let ?w = "takeWhile is_space s" and ?w' = "rev (takeWhile is_space (rev (lstrip s)))"
  have "lstrip s = strip s @ ?w'" unfolding strip_def by (rule rstrip_decomp)
  with lstrip_decomp [of s] have "s = ?w @ strip s @ ?w'" by simp
  moreover have "list_all is_space ?w" "list_all is_space ?w'"
    by (auto simp: list_all_iff dest: set_takeWhileD)
  ultimately show ?thesis by blast
qed

lemma strip_eq_Nil_iff: "strip s = [] \<longleftrightarrow> list_all is_space s"
proof
  assume "strip s = []"
  then have all: "\<forall>x\<in>set (lstrip s). is_space x"
    by (simp add: strip_def rstrip_def)
  have "lstrip s = []"
  proof (rule ccontr)
    assume ne: "lstrip s \<noteq> []"
    then have "\<not> is_space (hd (lstrip s))" unfolding lstrip_def by (rule hd_dropWhile)
    with all ne show False by simp
  qed
  then show "list_all is_space s" by (simp add: lstrip_def list_all_iff)
next
  assume "list_all is_space s"
  then have "lstrip s = []" by (simp add: lstrip_def list_all_iff)
  then show "strip s = []" by (simp add: strip_def rstrip_def)
qed

lemma strip_hd_not_space: "strip s = c # t \<Longrightarrow> \<not> is_space c"
proof -
  assume a: "strip s = c # t"
  then have ne: "lstrip s \<noteq> []" by (auto simp: strip_def rstrip_def)
  have "\<not> is_space (hd (lstrip s))"
    using ne unfolding lstrip_def by (rule hd_dropWhile)
  moreover have "hd (rstrip (lstrip s)) = hd (lstrip s)"
  proof -
    obtain w' where "lstrip s = rstrip (lstrip s) @ w'" using rstrip_decomp by blast
    with a show ?thesis unfolding strip_def by (metis hd_append2 list.distinct(1))
  qed
  ultimately show ?thesis using a by (simp add: strip_def)
qed

lemma strip_last_not_space: "strip s \<noteq> [] \<Longrightarrow> \<not> is_space (last (strip s))"
proof -
  assume a: "strip s \<noteq> []"
  then have "dropWhile is_space (rev (lstrip s)) \<noteq> []" by (simp add: strip_def rstrip_def)
  then have "\<not> is_space (hd (dropWhile is_space (rev (lstrip s))))" by (rule hd_dropWhile)
  with a show ?thesis by (simp add: strip_def rstrip_def last_rev)
qed

lemma lstrip_spaces_append: "list_all is_space w \<Longrightarrow> lstrip (w @ s) = lstrip s"
  by (simp add: lstrip_def list_all_iff)

lemma rstrip_append_spaces:
  assumes "list_all is_space w"
  shows "rstrip (s @ w) = rstrip s"
proof -
  have "\<And>x. x \<in> set (rev w) \<Longrightarrow> is_space x" using assms by (simp add: list_all_iff)
  then have "dropWhile is_space (rev w @ rev s) = dropWhile is_space (rev s)"
    by (rule dropWhile_append2)
  then show ?thesis by (simp add: rstrip_def)
qed

lemma strip_spaces_append: "list_all is_space w \<Longrightarrow> strip (w @ s) = strip s"
  by (simp add: strip_def lstrip_spaces_append)

lemma strip_append_spaces:
  assumes "list_all is_space w"
  shows "strip (s @ w) = strip s"
proof (cases "list_all is_space s")
  case True
  with assms have "list_all is_space (s @ w)" by simp
  with True show ?thesis by (simp only: strip_eq_Nil_iff [symmetric])
next
  case False
  then have "lstrip (s @ w) = lstrip s @ w"
    by (auto simp: lstrip_def list_all_iff)
  with assms show ?thesis by (simp add: strip_def rstrip_append_spaces)
qed

section \<open>Lines of a text and of its trimmed form\<close>

lemma split_nl_not_Nil: "split_nl s \<noteq> []"
  by (induction s) (auto split: list.splits)

lemma split_nl_chars: "l \<in> set (split_nl s) \<Longrightarrow> set l \<subseteq> set s"
proof (induction s arbitrary: l)
  case Nil
  then show ?case by simp
next
  case (Cons c s)
  obtain l0 ls where sp: "split_nl s = l0 # ls"
    using split_nl_not_Nil [of s] by (cases "split_nl s") auto
  then have ih: "set l0 \<subseteq> set s" "\<And>x. x \<in> set ls \<Longrightarrow> set x \<subseteq> set s"
    using Cons.IH by simp_all
  from Cons.prems sp have "l = [] \<or> l = l0 \<or> l = c # l0 \<or> l \<in> set ls"
    by (auto split: if_splits)
  with ih show ?case by auto
qed

lemma split_nl_append:
  "split_nl (a @ b) =
     butlast (split_nl a) @ [last (split_nl a) @ hd (split_nl b)] @ tl (split_nl b)"
proof (induction a)
  case Nil
  then show ?case by (simp add: split_nl_not_Nil)
next
  case (Cons c a)
  show ?case
  proof (cases "split_nl a")
    case Nil
    then show ?thesis by (simp add: split_nl_not_Nil)
  next
    case (Cons l ls)
    with Cons.IH show ?thesis by (cases ls) (auto simp: split_nl_not_Nil)
  qed
qed

lemma split_nl_spaces: "list_all is_space w \<Longrightarrow> l \<in> set (split_nl w) \<Longrightarrow> list_all is_space l"
  using split_nl_chars [of l w] by (auto simp: list_all_iff)

lemma lines_after_spaces:
  assumes "list_all is_space w" and "l' \<in> set (split_nl b)"
  shows "\<exists>l\<in>set (split_nl (w @ b)). strip l = strip l'"
proof -
  let ?A = "split_nl w" and ?B = "split_nl b"
  have la: "list_all is_space (last ?A)"
    using assms(1) split_nl_not_Nil [of w] by (auto intro: split_nl_spaces)
  from assms(2) have "l' = hd ?B \<or> l' \<in> set (tl ?B)"
    by (cases ?B) auto
  then show ?thesis
  proof
    assume "l' = hd ?B"
    then have "strip (last ?A @ hd ?B) = strip l'" using la by (simp add: strip_spaces_append)
    moreover have "last ?A @ hd ?B \<in> set (split_nl (w @ b))" by (simp add: split_nl_append)
    ultimately show ?thesis by blast
  next
    assume "l' \<in> set (tl ?B)"
    then have "l' \<in> set (split_nl (w @ b))" by (simp add: split_nl_append)
    then show ?thesis by blast
  qed
qed

lemma lines_before_spaces:
  assumes "list_all is_space w" and "l' \<in> set (split_nl a)"
  shows "\<exists>l\<in>set (split_nl (a @ w)). strip l = strip l'"
proof -
  let ?A = "split_nl a" and ?W = "split_nl w"
  have hw: "list_all is_space (hd ?W)"
    using assms(1) split_nl_not_Nil [of w] by (auto intro: split_nl_spaces)
  from assms(2) have "l' = last ?A \<or> l' \<in> set (butlast ?A)"
    by (cases ?A rule: rev_cases) auto
  then show ?thesis
  proof
    assume "l' = last ?A"
    then have "strip (last ?A @ hd ?W) = strip l'" using hw by (simp add: strip_append_spaces)
    moreover have "last ?A @ hd ?W \<in> set (split_nl (a @ w))" by (simp add: split_nl_append)
    ultimately show ?thesis by blast
  next
    assume "l' \<in> set (butlast ?A)"
    then have "l' \<in> set (split_nl (a @ w))" by (simp add: split_nl_append)
    then show ?thesis by blast
  qed
qed

lemma lines_of_strip:
  assumes "l' \<in> set (split_nl (strip s))"
  shows "\<exists>l\<in>set (split_nl s). strip l = strip l'"
proof -
  obtain w w' where s: "s = w @ strip s @ w'" and w: "list_all is_space w" "list_all is_space w'"
    using strip_decomp by blast
  from lines_before_spaces [OF w(2) assms] obtain l1 where
    l1: "l1 \<in> set (split_nl (strip s @ w'))" "strip l1 = strip l'" by blast
  from lines_after_spaces [OF w(1) l1(1)] obtain l where
    "l \<in> set (split_nl (w @ strip s @ w'))" "strip l = strip l1" by blast
  with l1(2) s show ?thesis by metis
qed

section \<open>The separator scan and the loop\<close>

lemma find_separator_None:
  "find_separator idx ls = None \<longleftrightarrow> (\<forall>l\<in>set ls. \<not> startswith (strip l) ''---'')"
  by (induction ls arbitrary: idx) auto

lemma find_separator_Some:
  "find_separator idx ls = Some i \<Longrightarrow>
     idx \<le> i \<and> i - idx < length ls \<and> startswith (strip (ls ! (i - idx))) ''---''
     \<and> (\<forall>j < i - idx. \<not> startswith (strip (ls ! j)) ''---'')"
proof (induction ls arbitrary: idx)
  case Nil
  then show ?case by simp
next
  case (Cons l ls)
  show ?case
  proof (cases "startswith (strip l) ''---''")
    case True
    with Cons.prems show ?thesis by simp
  next
    case False
    with Cons.prems have "find_separator (Suc idx) ls = Some i" by simp
    from Cons.IH [OF this] have ih: "Suc idx \<le> i" "i - Suc idx < length ls"
      "startswith (strip (ls ! (i - Suc idx))) ''---''"
      "\<forall>j < i - Suc idx. \<not> startswith (strip (ls ! j)) ''---''" by simp_all
    from ih(1) have eq: "i - idx = Suc (i - Suc idx)" by simp
    have "\<forall>j < i - idx. \<not> startswith (strip ((l # ls) ! j)) ''---''"
    proof (intro allI impI)
      fix j assume "j < i - idx"
      then show "\<not> startswith (strip ((l # ls) ! j)) ''---''"
        using False ih(4) eq by (cases j) auto
    qed
    with ih eq show ?thesis by simp
  qed
qed

lemma collect_map_filter: "collect body packages ls = packages @ List.map_filter body ls"
  by (induction ls arbitrary: packages) (auto split: option.splits)

lemma data_line_Some_iff:
  "data_line pattern build raw \<noteq> None \<longleftrightarrow> matching pattern raw"
  by (auto simp: data_line_def matching_def Let_def split: option.splits)

lemma data_line_skipped:
  "length (strip raw) < 10 \<or> skip_line (strip raw) \<Longrightarrow> data_line pattern build raw = None"
  by (auto simp: data_line_def skip_line_def Let_def)

lemma collect_drop_None:
  "body l = None \<Longrightarrow> collect body packages (xs @ l # ys) = collect body packages (xs @ ys)"
  by (simp add: collect_map_filter List.map_filter_def)

section \<open>The parsers as a whole\<close>

lemma parse_table_member:
  "p \<in> set (parse_table body output) \<Longrightarrow> \<exists>raw. body raw = Some p"
  by (auto simp: parse_table_def Let_def collect_map_filter List.map_filter_def
      split: option.splits)

lemma parse_table_no_separator:
  assumes "\<forall>l\<in>set (split_nl output). \<not> startswith (strip l) ''---''"
  shows "parse_table body output = []"
proof -
  have "\<forall>l'\<in>set (split_nl (strip output)). \<not> startswith (strip l') ''---''"
  proof
    fix l' assume "l' \<in> set (split_nl (strip output))"
    from lines_of_strip [OF this] obtain l where "l \<in> set (split_nl output)" "strip l = strip l'"
      by blast
    with assms show "\<not> startswith (strip l') ''---''" by metis
  qed
  then have "find_separator 0 (split_nl (strip output)) = None"
    by (simp only: find_separator_None)
  then show ?thesis by (simp add: parse_table_def)
qed

lemma parse_table_map_filter:
  "find_separator 0 (split_nl (strip output)) = Some i \<Longrightarrow>
   parse_table body output = List.map_filter body (drop (Suc i) (split_nl (strip output)))"
  by (simp add: parse_table_def collect_map_filter)

lemma label_short:
  "g = ''Command:'' \<or> g = ''Tag:'' \<or> g = ''Tag'' \<Longrightarrow> g \<noteq> [] \<and> length g < 20"
  by auto

section \<open>Skipped lines, sources and the shape of a fetch\<close>

lemma startswith_char: "startswith s [c] \<longleftrightarrow> (s \<noteq> [] \<and> hd s = c)"
  by (cases s) (simp_all add: startswith_def)

lemma skip_line_iff:
  "skip_line line \<longleftrightarrow>
     (length line < 10
      \<or> (line \<noteq> [] \<and> hd line \<in> set [CHR ''-'', CHR 0x5C, CHR ''|'', CHR ''/'']))"
  unfolding skip_line_def startswith_char by auto

lemma is_space_newline: "is_space newline"
  by (simp add: is_space_def whitespace_def)

lemma not_all_space_strip:
  assumes "g \<noteq> []" and "\<not> is_space (last g) \<or> \<not> is_space (hd g)"
  shows "strip g \<noteq> []"
proof -
  from assms(1) have "last g \<in> set g" "hd g \<in> set g" by simp_all
  with assms(2) have "\<not> list_all is_space g" by (auto simp: list_all_iff)
  then show ?thesis by (simp add: strip_eq_Nil_iff)
qed

lemma list_record_source: "source (list_record m) \<noteq> []"
  by (cases m) (simp add: list_record_def Let_def)

lemma search_record_source: "source (search_record m) \<noteq> []"
  by (cases m) (simp add: search_record_def Let_def)

lemma upgrade_record_source:
  assumes "upgrade_pattern (strip raw) = Some m"
  shows "source (upgrade_record m) \<noteq> []"
proof -
  obtain g1 g2 g3 g4 g5 u where m: "m = (g1, g2, g3, g4, g5, u)" by (cases m) auto
  from assms m have "upgrade_pattern (strip raw) = Some (g1, g2, g3, g4, g5, u)" by simp
  from upgrade_pattern_sound [OF this] obtain w1 w2 w3 w4 e where
    s: "strip raw = g1 @ w1 @ g2 @ w2 @ g3 @ w3 @ g4 @ w4 @ g5 @ e"
    and g5: "any_run g5" and e: "e = [] \<or> e = [newline]" by blast
  from g5 have ne: "g5 \<noteq> []" by (simp add: any_run_def)
  with s have sne: "strip raw \<noteq> []" by simp
  then have nsp: "\<not> is_space (last (strip raw))" by (rule strip_last_not_space)
  have "e = []"
  proof (rule ccontr)
    assume "e \<noteq> []"
    with e have "e = [newline]" by simp
    with s have "last (strip raw) = newline" by simp
    with nsp is_space_newline show False by simp
  qed
  with s ne have "last (strip raw) = last g5" by simp
  with nsp have "\<not> is_space (last g5)" by simp
  with ne have "strip g5 \<noteq> []" by (simp add: not_all_space_strip)
  then show ?thesis by (simp add: m upgrade_record_def)
qed

lemma data_line_Some:
  "data_line pattern build raw = Some p \<Longrightarrow> \<exists>m. pattern (strip raw) = Some m \<and> p = build m"
  by (auto simp: data_line_def Let_def split: if_splits option.splits)

lemma line_source:
  "list_line raw = Some p \<Longrightarrow> source p \<noteq> []"
  "search_line raw = Some p \<Longrightarrow> source p \<noteq> []"
  "upgrade_line raw = Some p \<Longrightarrow> source p \<noteq> []"
  unfolding list_line_def search_line_def upgrade_line_def
  by (auto dest!: data_line_Some simp: list_record_source search_record_source
      upgrade_record_source)

lemma first_group_not_empty:
  assumes "strip raw = g1 @ v" and "g1 \<noteq> []"
  shows "strip g1 \<noteq> []"
proof -
  from assms obtain c t where "g1 = c # t" by (cases g1) auto
  with assms(1) have "strip raw = c # (t @ v)" "hd g1 = c" by simp_all
  then have "\<not> is_space (hd g1)" using strip_hd_not_space by blast
  with assms(2) show ?thesis by (simp add: not_all_space_strip)
qed

lemma record_name_not_empty:
  assumes "list_line raw = Some p \<or> search_line raw = Some p \<or> upgrade_line raw = Some p"
  shows "name p \<noteq> []"
proof -
  have l: "strip g1 \<noteq> []" if "list_pattern (strip raw) = Some (g1, r)" for g1 r
  proof -
    from that obtain v where "strip raw = g1 @ v" "any_run g1"
      unfolding list_pattern_def by (blast dest: grp_sound)
    then show ?thesis by (simp add: first_group_not_empty any_run_def)
  qed
  have u: "strip g1 \<noteq> []" if "upgrade_pattern (strip raw) = Some (g1, r)" for g1 r
  proof -
    from that obtain v where "strip raw = g1 @ v" "any_run g1"
      unfolding upgrade_pattern_def by (blast dest: grp_sound)
    then show ?thesis by (simp add: first_group_not_empty any_run_def)
  qed
  from assms show ?thesis
  proof (elim disjE)
    assume "list_line raw = Some p"
    then obtain m where m: "list_pattern (strip raw) = Some m" "p = list_record m"
      unfolding list_line_def by (blast dest: data_line_Some)
    obtain g1 g2 g3 g4 g5 w where "m = (g1, g2, g3, g4, g5, w)" by (cases m) auto
    with m l [of g1 "(g2, g3, g4, g5, w)"] show ?thesis
      by (simp add: list_record_def Let_def)
  next
    assume "search_line raw = Some p"
    then obtain m where m: "list_pattern (strip raw) = Some m" "p = search_record m"
      unfolding search_line_def by (blast dest: data_line_Some)
    obtain g1 g2 g3 g4 g5 w where "m = (g1, g2, g3, g4, g5, w)" by (cases m) auto
    with m l [of g1 "(g2, g3, g4, g5, w)"] show ?thesis
      by (simp add: search_record_def Let_def)
  next
    assume "upgrade_line raw = Some p"
    then obtain m where m: "upgrade_pattern (strip raw) = Some m" "p = upgrade_record m"
      unfolding upgrade_line_def by (blast dest: data_line_Some)
    obtain g1 g2 g3 g4 g5 w where "m = (g1, g2, g3, g4, g5, w)" by (cases m) auto
    with m u [of g1 "(g2, g3, g4, g5, w)"] show ?thesis
      by (simp add: upgrade_record_def)
  qed
qed

lemma last_group_not_empty:
  assumes "strip raw = pre @ t @ e" and "any_run t" and "e = [] \<or> e = [newline]"
  shows "strip t \<noteq> []"
proof -
  from assms(2) have ne: "t \<noteq> []" by (simp add: any_run_def)
  with assms(1) have "strip raw \<noteq> []" by simp
  then have nsp: "\<not> is_space (last (strip raw))" by (rule strip_last_not_space)
  have "e = []"
  proof (rule ccontr)
    assume "e \<noteq> []"
    with assms(3) have "e = [newline]" by simp
    with assms(1) have "last (strip raw) = newline" by simp
    with nsp is_space_newline show False by simp
  qed
  with assms(1) ne have "last (strip raw) = last t" by simp
  with nsp have "\<not> is_space (last t)" by simp
  with ne show ?thesis by (simp add: not_all_space_strip)
qed

lemma opt_sep_grp_cases:
  assumes "opt_sep_grp k s = Some (og, r)"
  shows "(\<exists>g. og = Some g \<and> sep (grp k) s = Some (g, r))
         \<or> (og = None \<and> sep (grp k) s = None \<and> k s = Some r)"
  using assms by (auto simp: opt_sep_grp_def split: option.splits)

lemma list_pattern_tail:
  assumes "list_pattern s = Some (g1, g2, g3, o4, o5, u)"
  shows "\<exists>pre t. s = pre @ t \<and> opt_sep_grp (opt_sep_grp eol) t = Some (o4, o5, u)"
proof -
  from assms obtain t1 where 1: "s = g1 @ t1"
    and k1: "sep (grp (sep (grp (opt_sep_grp (opt_sep_grp eol))))) t1 = Some (g2, g3, o4, o5, u)"
    unfolding list_pattern_def by (blast dest: grp_sound)
  from sep_grp_sound [OF k1] obtain w1 t2 where 2: "t1 = w1 @ g2 @ t2"
    and k2: "sep (grp (opt_sep_grp (opt_sep_grp eol))) t2 = Some (g3, o4, o5, u)" by blast
  from sep_grp_sound [OF k2] obtain w2 t3 where 3: "t2 = w2 @ g3 @ t3"
    and k3: "opt_sep_grp (opt_sep_grp eol) t3 = Some (o4, o5, u)" by blast
  from 1 2 3 have "s = (g1 @ w1 @ g2 @ w2 @ g3) @ t3" by simp
  with k3 show ?thesis by blast
qed

lemma last_optional_sound:
  assumes "opt_sep_grp eol v = Some (o5, u)"
  shows "(o5 = None \<and> (v = [] \<or> v = [newline]))
         \<or> (\<exists>t5 w e. o5 = Some t5 \<and> v = w @ t5 @ e \<and> whitespace_run w \<and> any_run t5
               \<and> (e = [] \<or> e = [newline]))"
proof -
  from opt_sep_grp_cases [OF assms] show ?thesis
  proof
    assume "\<exists>g. o5 = Some g \<and> sep (grp eol) v = Some (g, u)"
    then obtain t5 where o5: "o5 = Some t5" and s: "sep (grp eol) v = Some (t5, u)" by blast
    from sep_grp_sound [OF s] obtain w e where "v = w @ t5 @ e" "whitespace_run w" "any_run t5"
      "eol e = Some u" by blast
    with o5 have "o5 = Some t5 \<and> v = w @ t5 @ e \<and> whitespace_run w \<and> any_run t5
               \<and> (e = [] \<or> e = [newline])" by (simp add: eol_Some)
    then show ?thesis by blast
  next
    assume "o5 = None \<and> sep (grp eol) v = None \<and> eol v = Some u"
    then show ?thesis by (simp add: eol_Some)
  qed
qed

lemma opt_sep_grp_eol_total:
  "e = [] \<or> e = [newline] \<Longrightarrow> opt_sep_grp eol e \<noteq> None"
  by (auto simp: opt_sep_grp_def eol_def split: option.splits)

lemma list_pattern_last5:
  assumes "list_pattern s = Some (g1, g2, g3, o4, Some t5, u)"
  shows "\<exists>pre e. s = pre @ t5 @ e \<and> any_run t5 \<and> (e = [] \<or> e = [newline])"
proof -
  from list_pattern_tail [OF assms] obtain pre t where s: "s = pre @ t"
    and K: "opt_sep_grp (opt_sep_grp eol) t = Some (o4, Some t5, u)" by blast
  from opt_sep_grp_cases [OF K] show ?thesis
  proof
    assume "\<exists>g. o4 = Some g \<and> sep (grp (opt_sep_grp eol)) t = Some (g, Some t5, u)"
    then obtain t4 where a: "sep (grp (opt_sep_grp eol)) t = Some (t4, Some t5, u)" by blast
    from sep_grp_sound [OF a] obtain w v where t: "t = w @ t4 @ v"
      and v: "opt_sep_grp eol v = Some (Some t5, u)" by blast
    from last_optional_sound [OF v] obtain w' e where
      "v = w' @ t5 @ e" "any_run t5" "e = [] \<or> e = [newline]" by blast
    with s t have "s = (pre @ w @ t4 @ w') @ t5 @ e \<and> any_run t5 \<and> (e = [] \<or> e = [newline])"
      by simp
    then show ?thesis by blast
  next
    assume "o4 = None \<and> sep (grp (opt_sep_grp eol)) t = None
            \<and> opt_sep_grp eol t = Some (Some t5, u)"
    then have v: "opt_sep_grp eol t = Some (Some t5, u)" by blast
    from last_optional_sound [OF v] obtain w e where
      "t = w @ t5 @ e" "any_run t5" "e = [] \<or> e = [newline]" by blast
    with s have "s = (pre @ w) @ t5 @ e \<and> any_run t5 \<and> (e = [] \<or> e = [newline])" by simp
    then show ?thesis by blast
  qed
qed

lemma list_pattern_last4:
  assumes "list_pattern s = Some (g1, g2, g3, Some t4, None, u)"
  shows "\<exists>pre e. s = pre @ t4 @ e \<and> any_run t4 \<and> (e = [] \<or> e = [newline])"
proof -
  from list_pattern_tail [OF assms] obtain pre t where s: "s = pre @ t"
    and K: "opt_sep_grp (opt_sep_grp eol) t = Some (Some t4, None, u)" by blast
  from opt_sep_grp_cases [OF K] have a: "sep (grp (opt_sep_grp eol)) t = Some (t4, None, u)"
    by auto
  from sep_grp_sound [OF a] obtain w v where t: "t = w @ t4 @ v" and r: "any_run t4"
    and v: "opt_sep_grp eol v = Some (None, u)" by blast
  from last_optional_sound [OF v] have "v = [] \<or> v = [newline]" by auto
  with s t r have "s = (pre @ w) @ t4 @ v \<and> any_run t4 \<and> (v = [] \<or> v = [newline])" by simp
  then show ?thesis by blast
qed

lemma list_pattern_fourth_before_fifth:
  "list_pattern s \<noteq> Some (g1, g2, g3, None, Some t5, u)"
proof
  assume a: "list_pattern s = Some (g1, g2, g3, None, Some t5, u)"
  from list_pattern_tail [OF a] obtain pre t where
    K: "opt_sep_grp (opt_sep_grp eol) t = Some (None, Some t5, u)" by blast
  from opt_sep_grp_cases [OF K] have n: "sep (grp (opt_sep_grp eol)) t = None"
    and v: "opt_sep_grp eol t = Some (Some t5, u)" by auto
  from last_optional_sound [OF v] obtain w e where
    t: "t = w @ t5 @ e" and w: "whitespace_run w" and r: "any_run t5"
    and e: "e = [] \<or> e = [newline]" by blast
  from e have "opt_sep_grp eol e \<noteq> None" by (rule opt_sep_grp_eol_total)
  then have "sep (grp (opt_sep_grp eol)) (w @ t5 @ e) \<noteq> None"
    by (rule sep_grp_complete [OF w r])
  with n t show False by simp
qed
















lemma search_line_match:
  assumes "search_line raw = Some p" and "list_pattern (strip raw) = Some m"
  shows "p = search_record m"
  using assms by (auto simp: search_line_def data_line_def Let_def split: if_splits)

lemma list_line_match:
  assumes "list_line raw = Some p" and "list_pattern (strip raw) = Some m"
  shows "p = list_record m"
  using assms by (auto simp: list_line_def data_line_def Let_def split: if_splits)

lemma upgrade_line_match:
  assumes "upgrade_line raw = Some p" and "upgrade_pattern (strip raw) = Some m"
  shows "p = upgrade_record m"
  using assms by (auto simp: upgrade_line_def data_line_def Let_def split: if_splits)

lemma fifth_group_value:
  assumes "list_pattern (strip raw) = Some (g1, g2, g3, o4, Some t5, u)"
  shows "group_or_empty (Some t5) = strip t5 \<and> strip t5 \<noteq> []"
proof -
  from list_pattern_last5 [OF assms] obtain pre e where
    "strip raw = pre @ t5 @ e" "any_run t5" "e = [] \<or> e = [newline]" by blast
  then have "strip t5 \<noteq> []" by (rule last_group_not_empty)
  then show ?thesis by (auto simp: group_or_empty_def strip_def lstrip_def rstrip_def)
qed

lemma fourth_group_value:
  assumes "list_pattern (strip raw) = Some (g1, g2, g3, Some t4, None, u)"
  shows "group_or_empty (Some t4) = strip t4 \<and> strip t4 \<noteq> []"
proof -
  from list_pattern_last4 [OF assms] obtain pre e where
    "strip raw = pre @ t4 @ e" "any_run t4" "e = [] \<or> e = [newline]" by blast
  then have "strip t4 \<noteq> []" by (rule last_group_not_empty)
  then show ?thesis by (auto simp: group_or_empty_def strip_def lstrip_def rstrip_def)
qed

lemma group_or_empty_strip: "group_or_empty (Some t) = strip t"
  by (simp add: group_or_empty_def strip_def lstrip_def rstrip_def)

lemma record_source_fifth:
  assumes "list_pattern (strip raw) = Some (g1, g2, g3, o4, Some t5, u)"
  shows "source (list_record (g1, g2, g3, o4, Some t5, u)) = strip t5"
    and "source (search_record (g1, g2, g3, o4, Some t5, u)) = strip t5"
  using fifth_group_value [OF assms]
  by (simp_all add: list_record_def search_record_def Let_def)

lemma record_source_fourth:
  assumes "list_pattern (strip raw) = Some (g1, g2, g3, Some t4, None, u)"
  shows "source (list_record (g1, g2, g3, Some t4, None, u))
         = (if recognizable_source (strip t4) then strip t4 else ''winget'')"
    and "source (search_record (g1, g2, g3, Some t4, None, u))
         = (if recognizable_source (strip t4) then strip t4 else ''winget'')"
  using fourth_group_value [OF assms]
  by (simp_all add: list_record_def search_record_def Let_def recognizable_source_def
      group_or_empty_def)

lemma record_source_none:
  "source (list_record (g1, g2, g3, None, None, u)) = ''winget''"
  "source (search_record (g1, g2, g3, None, None, u)) = ''winget''"
  by (simp_all add: list_record_def search_record_def Let_def group_or_empty_def)

lemma label_available:
  assumes "list_pattern (strip raw) = Some (g1, g2, g3, Some g4, o5, u)"
    and "strip g4 = ''Command:'' \<or> strip g4 = ''Tag:'' \<or> strip g4 = ''Tag''"
  shows "available_version (search_record (g1, g2, g3, Some g4, o5, u)) = []"
proof (cases o5)
  case None
  with label_short [OF assms(2)] show ?thesis
    by (simp add: search_record_def Let_def group_or_empty_strip group_or_empty_def)
next
  case (Some t5)
  with assms(1) have "group_or_empty (Some t5) \<noteq> []"
    using fifth_group_value [of raw g1 g2 g3 "Some g4" t5 u] by simp
  with Some assms(2) show ?thesis
    by (auto simp: search_record_def Let_def group_or_empty_strip)
qed

lemma parse_table_matching:
  assumes "find_separator 0 (split_nl (strip output)) = Some i"
  shows "parse_table (data_line pattern build) output
         = map (\<lambda>l. the (data_line pattern build l))
             (filter (matching pattern) (drop (Suc i) (split_nl (strip output))))"
proof -
  have "(\<lambda>l. data_line pattern build l \<noteq> None) = matching pattern"
    by (rule ext) (rule data_line_Some_iff)
  with parse_table_map_filter [OF assms, of "data_line pattern build"] show ?thesis
    by (simp add: List.map_filter_def comp_def)
qed

lemma fetch_shape:
  "(case run_command result of (stdout, return_code) \<Rightarrow>
      if return_code \<noteq> 0 then
        ([], Some (if contains ''Error'' stdout \<or> contains ''Permission'' stdout then stdout
                   else ''Command failed with return code '' @ str_int return_code))
      else (parse stdout, None))
   = (if snd (run_command result) \<noteq> 0 then
        ([], Some (if contains ''Error'' (fst (run_command result))
                      \<or> contains ''Permission'' (fst (run_command result))
                   then fst (run_command result)
                   else ''Command failed with return code ''
                        @ str_int (snd (run_command result))))
      else (parse (fst (run_command result)), None))"
  by (cases "run_command result") simp

section \<open>The installed-list parser on a four-column line\<close>

text \<open>
  C1. For the installed-list parser, the single data line
  \<open>7-Zip 22.01  7zip.7zip  22.01  winget\<close> (two spaces between the fields) gives exactly
  one record: name \<open>7-Zip 22.01\<close>, id \<open>7zip.7zip\<close>, version \<open>22.01\<close>, source
  \<open>winget\<close> and an empty available version. Stated for the loop over that one data line,
  and for a whole text with a header, a separator and that line.
\<close>

theorem list_line_7zip:
  "collect list_line [] [''7-Zip 22.01  7zip.7zip  22.01  winget'']
     = [\<lparr>name = ''7-Zip 22.01'', package_id = ''7zip.7zip'', version = ''22.01'',
         source = ''winget'', available_version = ''''\<rparr>]
   \<and> parse_list_output
       (''Name         Id         Version  Source'' @ [newline]
        @ ''--------------------------------------'' @ [newline]
        @ ''7-Zip 22.01  7zip.7zip  22.01  winget'' @ [newline])
     = [\<lparr>name = ''7-Zip 22.01'', package_id = ''7zip.7zip'', version = ''22.01'',
         source = ''winget'', available_version = ''''\<rparr>]"
  by code_simp

section \<open>Labels in the search results\<close>

text \<open>
  C2, as the specification states it: for the search-results parser, when a matched data
  line has exactly one optional trailing value and that value is \<open>Command:\<close>, \<open>Tag:\<close> or
  \<open>Tag\<close>, the record has an empty available version and the value is not treated as
  data. The available version is empty, but the value is data of the record: it is
  shorter than 20 characters, so it becomes the source. The list of labels is consulted
  only when both optional values are present.
\<close>

theorem search_label_kept_as_source:
  "search_line ''Some Package  Some.Id  1.0  Tag''
     = Some \<lparr>name = ''Some Package'', package_id = ''Some.Id'', version = ''1.0'',
              source = ''Tag'', available_version = ''''\<rparr>
   \<and> parse_search_output
       (''Name          Id       Version  Match'' @ [newline]
        @ ''-------------------------------------'' @ [newline]
        @ ''Some Package  Some.Id  1.0  Tag'')
     = [\<lparr>name = ''Some Package'', package_id = ''Some.Id'', version = ''1.0'',
         source = ''Tag'', available_version = ''''\<rparr>]"
  by code_simp

text \<open>
  C2, amended: for the search-results parser, when the first optional trailing value of a
  matched data line is \<open>Command:\<close>, \<open>Tag:\<close> or \<open>Tag\<close>, the record has an empty available
  version; when that value is the only one, it is the source of the record, and when a
  second one follows, the second one is the source.
\<close>

theorem search_label_not_available:
  assumes "list_pattern (strip raw) = Some (g1, g2, g3, Some g4, o5, u)"
    and "strip g4 = ''Command:'' \<or> strip g4 = ''Tag:'' \<or> strip g4 = ''Tag''"
    and "search_line raw = Some p"
  shows "available_version p = []
         \<and> (o5 = None \<longrightarrow> source p = strip g4)
         \<and> (\<forall>t5. o5 = Some t5 \<longrightarrow> source p = strip t5)"
proof -
  from assms(3,1) have p: "p = search_record (g1, g2, g3, Some g4, o5, u)"
    by (rule search_line_match)
  have a: "available_version p = []"
    unfolding p using assms(1,2) by (rule label_available)
  have b: "source p = strip g4" if "o5 = None"
  proof -
    from that assms(1) have m: "list_pattern (strip raw) = Some (g1, g2, g3, Some g4, None, u)"
      by simp
    from label_short [OF assms(2)] have "recognizable_source (strip g4)"
      by (simp add: recognizable_source_def)
    with record_source_fourth(2) [OF m] that show ?thesis by (simp add: p)
  qed
  have c: "source p = strip t5" if "o5 = Some t5" for t5
  proof -
    from that assms(1) have m: "list_pattern (strip raw) = Some (g1, g2, g3, Some g4, Some t5, u)"
      by simp
    from record_source_fifth(2) [OF m] that show ?thesis by (simp add: p)
  qed
  from a b c show ?thesis by blast
qed

theorem search_label_not_available_witness:
  "list_pattern (strip ''Some Package  Some.Id  1.0  Tag'')
     = Some (''Some Package'', ''Some.Id'', ''1.0'', Some ''Tag'', None, ())
   \<and> search_line ''Some Package  Some.Id  1.0  Tag''
     = Some \<lparr>name = ''Some Package'', package_id = ''Some.Id'', version = ''1.0'',
              source = ''Tag'', available_version = ''''\<rparr>
   \<and> available_version \<lparr>name = ''Some Package'', package_id = ''Some.Id'', version = ''1.0'',
              source = ''Tag'', available_version = ''''\<rparr> = []
   \<and> source \<lparr>name = ''Some Package'', package_id = ''Some.Id'', version = ''1.0'',
              source = ''Tag'', available_version = ''''\<rparr> = strip ''Tag''
   \<and> list_pattern (strip ''Some Package  Some.Id  1.0  Tag:  winget'')
     = Some (''Some Package'', ''Some.Id'', ''1.0'', Some ''Tag:'', Some ''winget'', ())
   \<and> search_line ''Some Package  Some.Id  1.0  Tag:  winget''
     = Some \<lparr>name = ''Some Package'', package_id = ''Some.Id'', version = ''1.0'',
              source = ''winget'', available_version = ''''\<rparr>
   \<and> source \<lparr>name = ''Some Package'', package_id = ''Some.Id'', version = ''1.0'',
              source = ''winget'', available_version = ''''\<rparr> = strip ''winget''"
proof -
  have 1: "list_pattern (strip ''Some Package  Some.Id  1.0  Tag'')
     = Some (''Some Package'', ''Some.Id'', ''1.0'', Some ''Tag'', None, ())" by code_simp
  have 2: "strip ''Tag'' = ''Command:'' \<or> strip ''Tag'' = ''Tag:'' \<or> strip ''Tag'' = ''Tag''"
    by code_simp
  have 3: "search_line ''Some Package  Some.Id  1.0  Tag''
     = Some \<lparr>name = ''Some Package'', package_id = ''Some.Id'', version = ''1.0'',
              source = ''Tag'', available_version = ''''\<rparr>" by code_simp
  have 4: "list_pattern (strip ''Some Package  Some.Id  1.0  Tag:  winget'')
     = Some (''Some Package'', ''Some.Id'', ''1.0'', Some ''Tag:'', Some ''winget'', ())"
    by code_simp
  have 5: "strip ''Tag:'' = ''Command:'' \<or> strip ''Tag:'' = ''Tag:'' \<or> strip ''Tag:'' = ''Tag''"
    by code_simp
  have 6: "search_line ''Some Package  Some.Id  1.0  Tag:  winget''
     = Some \<lparr>name = ''Some Package'', package_id = ''Some.Id'', version = ''1.0'',
              source = ''winget'', available_version = ''''\<rparr>" by code_simp
  from search_label_not_available [OF 1 2 3] search_label_not_available [OF 4 5 6] 1 3 4 6
  show ?thesis by blast
qed

section \<open>What the process runner tells its caller\<close>

text \<open>
  C3, as the specification states it: a missing executable, a timeout, a permission denial
  and a non-zero exit are each distinguishable from the others by the caller. The runner
  returns a text and a return code and nothing else, and a manager that prints
  \<open>Command timed out\<close> and exits with code 1 gives the caller exactly what a timeout gives.
  One level up, \<open>list_installed\<close> reports a missing executable and a timeout with the same
  error string, since neither text contains \<open>Error\<close> or \<open>Permission\<close>.
\<close>

theorem run_command_same_for_timeout_and_exit:
  "run_command (Completed ''Command timed out'' '''' 1) = run_command TimeoutExpired
   \<and> list_installed FileNotFoundError = list_installed TimeoutExpired"
proof -
  have "run_command (Completed ''Command timed out'' '''' 1) = run_command TimeoutExpired"
    by (simp add: run_command_def)
  moreover have "list_installed FileNotFoundError
      = ([], Some ''Command failed with return code 1'')"
    by code_simp
  moreover have "list_installed TimeoutExpired = ([], Some ''Command failed with return code 1'')"
    by code_simp
  ultimately show ?thesis by simp
qed

text \<open>
  C3, amended: a missing executable, a timeout and a permission denial each give return
  code 1 with a fixed text, the three texts differ from one another, and a non-zero exit
  gives the exit code of the manager with its output, followed by a \<open>STDERR:\<close> section when
  the error output is not empty.
\<close>

theorem run_command_failure_texts:
  "run_command FileNotFoundError
     = (''winget command not found. Is Windows Package Manager installed?'', 1)
   \<and> run_command TimeoutExpired = (''Command timed out'', 1)
   \<and> run_command PermissionError
     = (''Permission denied. Administrator privileges may be required.'', 1)
   \<and> run_command (OtherException msg) = (''Error: '' @ msg, 1)
   \<and> run_command FileNotFoundError \<noteq> run_command TimeoutExpired
   \<and> run_command FileNotFoundError \<noteq> run_command PermissionError
   \<and> run_command TimeoutExpired \<noteq> run_command PermissionError
   \<and> (returncode \<noteq> 0 \<longrightarrow>
        snd (run_command (Completed stdout stderr returncode)) = returncode
        \<and> fst (run_command (Completed stdout stderr returncode))
            = (if stderr = [] then stdout else stdout @ [newline] @ ''STDERR: '' @ stderr))"
  by (simp add: run_command_def)

theorem run_command_failure_texts_witness:
  "(3::int) \<noteq> 0
   \<and> run_command (Completed ''out'' ''err'' 3) = (''out'' @ [newline] @ ''STDERR: err'', 3)"
  using run_command_failure_texts [of "''x''" 3 "''out''" "''err''"]
  by (simp add: prod_eq_iff)

section \<open>Records with an empty id or version\<close>

text \<open>
  C4 asks that every record has a non-empty name, id and version. A data line with two
  columns and a wide whitespace_run between them is accepted by both patterns, because a lazy group
  may consist of whitespace taken from the whitespace_run; trimmed, such a group is empty. The
  installed-list and search parsers give a record with an empty id, the upgradable-list
  parser one with an empty id, version and available version. (The name is never empty:
  \<open>record_name_not_empty\<close>.)
\<close>

theorem list_record_without_id:
  "parse_list_output
     (''Name              Id             Version'' @ [newline]
      @ ''----------------------------------------'' @ [newline]
      @ ''Some Old Program                   1.2.3'')
   = [\<lparr>name = ''Some Old Program'', package_id = '''', version = ''1.2.3'',
       source = ''winget'', available_version = ''''\<rparr>]
   \<and> parse_search_output
     (''Name              Id             Version'' @ [newline]
      @ ''----------------------------------------'' @ [newline]
      @ ''Some Old Program                   1.2.3'')
   = [\<lparr>name = ''Some Old Program'', package_id = '''', version = ''1.2.3'',
       source = ''winget'', available_version = ''''\<rparr>]
   \<and> parse_upgrade_output
     (''Name              Id             Version'' @ [newline]
      @ ''----------------------------------------'' @ [newline]
      @ ''Some Old Program                   1.2.3'')
   = [\<lparr>name = ''Some Old Program'', package_id = '''', version = '''',
       source = ''1.2.3'', available_version = ''''\<rparr>]"
  by code_simp

section \<open>The strict five-column pattern of the upgradable list\<close>




text \<open>Tabs are whitespace too, so a run of them separates columns as spaces do.\<close>

lemma upgrade_line_tabs:
  "upgrade_line [CHR ''G'', CHR ''i'', CHR ''t'', CHR 0x09, CHR 0x09, CHR ''G'', CHR ''.'', CHR ''G'',
                 CHR 0x09, CHR 0x09, CHR ''1'', CHR 0x09, CHR 0x09, CHR ''2'', CHR 0x09, CHR 0x09,
                 CHR ''w'']
   = Some \<lparr>name = ''Git'', package_id = ''G.G'', version = ''1'', source = ''w'',
            available_version = ''2''\<rparr>"
  by code_simp

section \<open>A text without a separator line\<close>

text \<open>
  C6. When no line of the text has a trimmed content that starts with three dashes, each
  of the three parsers returns the empty sequence. The parsers are total functions into
  lists of records: there is no error for them to signal.
\<close>

theorem no_separator_no_records:
  assumes "\<forall>l\<in>set (split_nl output). \<not> startswith (strip l) ''---''"
  shows "parse_list_output output = [] \<and> parse_search_output output = []
         \<and> parse_upgrade_output output = []"
  using assms
  by (simp add: parse_list_output_def parse_search_output_def parse_upgrade_output_def
      parse_table_no_separator)

theorem no_separator_no_records_witness:
  "list_all (\<lambda>l. \<not> startswith (strip l) ''---'')
     (split_nl (''Name  Id  Version  Available  Source'' @ [newline]
                @ ''Git  Git.Git  2.40.0  2.42.0  winget''))
   \<and> parse_list_output (''Name  Id  Version  Available  Source'' @ [newline]
                       @ ''Git  Git.Git  2.40.0  2.42.0  winget'') = []
   \<and> parse_search_output (''Name  Id  Version  Available  Source'' @ [newline]
                       @ ''Git  Git.Git  2.40.0  2.42.0  winget'') = []
   \<and> parse_upgrade_output (''Name  Id  Version  Available  Source'' @ [newline]
                       @ ''Git  Git.Git  2.40.0  2.42.0  winget'') = []"
proof -
  have a: "list_all (\<lambda>l. \<not> startswith (strip l) ''---'')
     (split_nl (''Name  Id  Version  Available  Source'' @ [newline]
                @ ''Git  Git.Git  2.40.0  2.42.0  winget''))"
    by code_simp
  then have h: "\<forall>l\<in>set (split_nl (''Name  Id  Version  Available  Source'' @ [newline]
                       @ ''Git  Git.Git  2.40.0  2.42.0  winget'')).
       \<not> startswith (strip l) ''---''"
    by (simp only: list_all_iff)
  from no_separator_no_records [OF h] a show ?thesis by blast
qed

section \<open>The fetch operations\<close>

text \<open>
  C7. For each of \<open>list_installed\<close>, \<open>search\<close> and \<open>check_for_updates\<close>: the error is
  set exactly when the return code that the runner delivers is not zero (for a process
  that completed, its exit code); then the records are empty and the error is the output
  text when \<open>Error\<close> or \<open>Permission\<close> occurs in it, and
  \<open>Command failed with return code N\<close> otherwise; with return code zero the error is
  \<open>None\<close> and the records are whatever the parser returns, also when that is nothing.
\<close>

theorem fetch_error_iff_nonzero:
  "(snd (list_installed result) \<noteq> None \<longleftrightarrow> snd (run_command result) \<noteq> 0)
   \<and> (snd (search result) \<noteq> None \<longleftrightarrow> snd (run_command result) \<noteq> 0)
   \<and> (snd (check_for_updates result) \<noteq> None \<longleftrightarrow> snd (run_command result) \<noteq> 0)
   \<and> (snd (run_command result) \<noteq> 0 \<longrightarrow>
        fst (list_installed result) = [] \<and> fst (search result) = []
        \<and> fst (check_for_updates result) = []
        \<and> snd (list_installed result)
            = Some (if contains ''Error'' (fst (run_command result))
                       \<or> contains ''Permission'' (fst (run_command result))
                    then fst (run_command result)
                    else ''Command failed with return code ''
                         @ str_int (snd (run_command result)))
        \<and> snd (search result) = snd (list_installed result)
        \<and> snd (check_for_updates result) = snd (list_installed result))
   \<and> (snd (run_command result) = 0 \<longrightarrow>
        list_installed result = (parse_list_output (fst (run_command result)), None)
        \<and> search result = (parse_search_output (fst (run_command result)), None)
        \<and> check_for_updates result = (parse_upgrade_output (fst (run_command result)), None))
   \<and> (snd (run_command (Completed stdout stderr returncode)) \<noteq> 0 \<longleftrightarrow> returncode \<noteq> 0)"
  unfolding list_installed_def search_def check_for_updates_def fetch_shape
  by (simp add: run_command_def)

theorem fetch_error_iff_nonzero_witness:
  "list_installed (Completed ''No installed package found.'' '''' 0) = ([], None)
   \<and> search (Completed '''' ''boom'' 5) = ([], Some ''Command failed with return code 5'')
   \<and> check_for_updates PermissionError
       = ([], Some ''Permission denied. Administrator privileges may be required.'')
   \<and> list_installed TimeoutExpired = ([], Some ''Command failed with return code 1'')"
proof -
  have 1: "run_command (Completed ''No installed package found.'' '''' 0)
             = (''No installed package found.'', 0)"
    by (simp add: run_command_def)
  have 2: "parse_list_output ''No installed package found.'' = []" by code_simp
  have 3: "run_command (Completed '''' ''boom'' 5) = ([newline] @ ''STDERR: boom'', 5)"
    by (simp add: run_command_def)
  have 4: "\<not> contains ''Error'' ([newline] @ ''STDERR: boom'')"
    "\<not> contains ''Permission'' ([newline] @ ''STDERR: boom'')" by code_simp+
  have 5: "str_int 5 = ''5''" "str_int 1 = ''1''" by code_simp+
  have 6: "run_command PermissionError
             = (''Permission denied. Administrator privileges may be required.'', 1)"
    "run_command TimeoutExpired = (''Command timed out'', 1)"
    by (simp_all add: run_command_def)
  have 7: "contains ''Permission'' ''Permission denied. Administrator privileges may be required.''"
    "\<not> contains ''Error'' ''Command timed out''" "\<not> contains ''Permission'' ''Command timed out''"
    by code_simp+
  have a: "list_installed (Completed ''No installed package found.'' '''' 0) = ([], None)"
    using fetch_error_iff_nonzero [of "Completed ''No installed package found.'' '''' 0"] 1 2
    by simp
  have b: "search (Completed '''' ''boom'' 5) = ([], Some ''Command failed with return code 5'')"
    using fetch_error_iff_nonzero [of "Completed '''' ''boom'' 5"] 3 4 5
    by (simp add: prod_eq_iff)
  have c: "check_for_updates PermissionError
       = ([], Some ''Permission denied. Administrator privileges may be required.'')"
    using fetch_error_iff_nonzero [of PermissionError] 6 7
    by (simp add: prod_eq_iff)
  have d: "list_installed TimeoutExpired = ([], Some ''Command failed with return code 1'')"
    using fetch_error_iff_nonzero [of TimeoutExpired] 6 7 5
    by (simp add: prod_eq_iff)
  from a b c d show ?thesis by blast
qed

section \<open>One record per matching data line, in order\<close>

text \<open>
  C8. When the scan finds a separator line, at index \<open>i\<close> of the lines of the trimmed
  text, each parser returns the records of the matching data lines (the lines after
  index \<open>i\<close> that are not empty once trimmed, are not skipped, and are accepted by the
  pattern), one record for each and in the order of the lines.
\<close>

theorem records_in_line_order:
  assumes "find_separator 0 (split_nl (strip output)) = Some i"
  shows "parse_list_output output
           = map (\<lambda>l. the (list_line l))
               (filter (matching list_pattern) (drop (Suc i) (split_nl (strip output))))
         \<and> parse_search_output output
           = map (\<lambda>l. the (search_line l))
               (filter (matching list_pattern) (drop (Suc i) (split_nl (strip output))))
         \<and> parse_upgrade_output output
           = map (\<lambda>l. the (upgrade_line l))
               (filter (matching upgrade_pattern) (drop (Suc i) (split_nl (strip output))))"
  unfolding parse_list_output_def parse_search_output_def parse_upgrade_output_def
    list_line_def search_line_def upgrade_line_def
  by (simp only: parse_table_matching [OF assms])

theorem records_in_line_order_witness:
  "find_separator 0 (split_nl (strip
       (''Name  Id  Version  Available  Source'' @ [newline]
        @ ''-----------------------------------'' @ [newline]
        @ ''Git  Git.Git  2.40.0  2.42.0  winget'' @ [newline]
        @ ''2 upgrades available.'' @ [newline]
        @ ''Vim  vim.vim  9.0  9.1  winget''))) = Some 1
   \<and> filter (matching upgrade_pattern) (drop (Suc 1) (split_nl (strip
       (''Name  Id  Version  Available  Source'' @ [newline]
        @ ''-----------------------------------'' @ [newline]
        @ ''Git  Git.Git  2.40.0  2.42.0  winget'' @ [newline]
        @ ''2 upgrades available.'' @ [newline]
        @ ''Vim  vim.vim  9.0  9.1  winget''))))
     = [''Git  Git.Git  2.40.0  2.42.0  winget'', ''Vim  vim.vim  9.0  9.1  winget'']
   \<and> parse_upgrade_output
       (''Name  Id  Version  Available  Source'' @ [newline]
        @ ''-----------------------------------'' @ [newline]
        @ ''Git  Git.Git  2.40.0  2.42.0  winget'' @ [newline]
        @ ''2 upgrades available.'' @ [newline]
        @ ''Vim  vim.vim  9.0  9.1  winget'')
     = [\<lparr>name = ''Git'', package_id = ''Git.Git'', version = ''2.40.0'',
         source = ''winget'', available_version = ''2.42.0''\<rparr>,
        \<lparr>name = ''Vim'', package_id = ''vim.vim'', version = ''9.0'',
         source = ''winget'', available_version = ''9.1''\<rparr>]"
proof -
  let ?text = "''Name  Id  Version  Available  Source'' @ [newline]
        @ ''-----------------------------------'' @ [newline]
        @ ''Git  Git.Git  2.40.0  2.42.0  winget'' @ [newline]
        @ ''2 upgrades available.'' @ [newline]
        @ ''Vim  vim.vim  9.0  9.1  winget''"
  have h: "find_separator 0 (split_nl (strip ?text)) = Some 1" by code_simp
  have f: "filter (matching upgrade_pattern) (drop (Suc 1) (split_nl (strip ?text)))
     = [''Git  Git.Git  2.40.0  2.42.0  winget'', ''Vim  vim.vim  9.0  9.1  winget'']"
    by code_simp
  have m: "map (\<lambda>l. the (upgrade_line l))
       [''Git  Git.Git  2.40.0  2.42.0  winget'', ''Vim  vim.vim  9.0  9.1  winget'']
     = [\<lparr>name = ''Git'', package_id = ''Git.Git'', version = ''2.40.0'',
         source = ''winget'', available_version = ''2.42.0''\<rparr>,
        \<lparr>name = ''Vim'', package_id = ''vim.vim'', version = ''9.0'',
         source = ''winget'', available_version = ''9.1''\<rparr>]"
    by code_simp
  from records_in_line_order [OF h] have
    "parse_upgrade_output ?text
       = map (\<lambda>l. the (upgrade_line l))
           (filter (matching upgrade_pattern) (drop (Suc 1) (split_nl (strip ?text))))"
    by blast
  with f m have "parse_upgrade_output ?text
     = [\<lparr>name = ''Git'', package_id = ''Git.Git'', version = ''2.40.0'',
         source = ''winget'', available_version = ''2.42.0''\<rparr>,
        \<lparr>name = ''Vim'', package_id = ''vim.vim'', version = ''9.0'',
         source = ''winget'', available_version = ''9.1''\<rparr>]"
    by (simp only:)
  with h f show ?thesis by blast
qed

section \<open>Lines that are always skipped\<close>

text \<open>
  C9. A data line whose trimmed form has fewer than 10 characters, or begins with one of
  \<open>-\<close>, the backslash, \<open>|\<close> and \<open>/\<close>, gives no record in any of the three parsers,
  whatever the pattern would do with it: the loop body returns nothing for it, and the
  loop returns what it returns without that line.
\<close>

theorem skipped_line_gives_no_record:
  assumes "length (strip raw) < 10
           \<or> (strip raw \<noteq> []
               \<and> hd (strip raw) \<in> set [CHR ''-'', CHR 0x5C, CHR ''|'', CHR ''/''])"
  shows "list_line raw = None \<and> search_line raw = None \<and> upgrade_line raw = None
         \<and> collect list_line packages (before @ raw # after)
             = collect list_line packages (before @ after)
         \<and> collect search_line packages (before @ raw # after)
             = collect search_line packages (before @ after)
         \<and> collect upgrade_line packages (before @ raw # after)
             = collect upgrade_line packages (before @ after)"
proof -
  from assms have "length (strip raw) < 10 \<or> skip_line (strip raw)"
    by (simp only: skip_line_iff) blast
  then have "list_line raw = None" "search_line raw = None" "upgrade_line raw = None"
    unfolding list_line_def search_line_def upgrade_line_def
    by (simp_all only: data_line_skipped)
  then show ?thesis by (simp add: collect_drop_None)
qed

theorem skipped_line_gives_no_record_witness:
  "list_pattern (strip ''-abc  defg  1.0  2.0  winget'') \<noteq> None
   \<and> upgrade_pattern (strip ''-abc  defg  1.0  2.0  winget'') \<noteq> None
   \<and> list_line ''-abc  defg  1.0  2.0  winget'' = None
   \<and> search_line ''-abc  defg  1.0  2.0  winget'' = None
   \<and> upgrade_line ''-abc  defg  1.0  2.0  winget'' = None
   \<and> list_pattern (strip ''a  b  c'') \<noteq> None
   \<and> list_line ''a  b  c'' = None
   \<and> search_line ''a  b  c'' = None"
proof -
  have 1: "length (strip ''-abc  defg  1.0  2.0  winget'') < 10
           \<or> (strip ''-abc  defg  1.0  2.0  winget'' \<noteq> []
               \<and> hd (strip ''-abc  defg  1.0  2.0  winget'')
                   \<in> set [CHR ''-'', CHR 0x5C, CHR ''|'', CHR ''/''])"
    by code_simp
  have 2: "length (strip ''a  b  c'') < 10
           \<or> (strip ''a  b  c'' \<noteq> []
               \<and> hd (strip ''a  b  c'') \<in> set [CHR ''-'', CHR 0x5C, CHR ''|'', CHR ''/''])"
    by code_simp
  have 3: "list_pattern (strip ''-abc  defg  1.0  2.0  winget'') \<noteq> None"
    "upgrade_pattern (strip ''-abc  defg  1.0  2.0  winget'') \<noteq> None"
    "list_pattern (strip ''a  b  c'') \<noteq> None"
    by code_simp+
  from skipped_line_gives_no_record [OF 1] skipped_line_gives_no_record [OF 2] 3
  show ?thesis by blast
qed

section \<open>The source of a record\<close>

text \<open>
  C10, as the specification states it: every record of the three parsers has a non-empty
  source, because the source is set to \<open>winget\<close> when the line supplies no recognizable
  source column. The source is never empty, but the fallback is narrower than that. The
  upgradable-list parser has none: its source is the fifth group as it is, here a text of
  26 characters that names no catalog, and a version on the two-column line of C4. The
  installed-list parser tests a value only when it is the single optional one: a last of
  two optional values is the source as it is.
\<close>

theorem source_without_fallback:
  "\<not> recognizable_source ''none of the known catalogs''
   \<and> upgrade_line ''Git  Git.Git  2.40.0  2.42.0  none of the known catalogs''
     = Some \<lparr>name = ''Git'', package_id = ''Git.Git'', version = ''2.40.0'',
              source = ''none of the known catalogs'', available_version = ''2.42.0''\<rparr>
   \<and> list_line ''Git  Git.Git  2.40.0  2.42.0  none of the known catalogs''
     = Some \<lparr>name = ''Git'', package_id = ''Git.Git'', version = ''2.40.0'',
              source = ''none of the known catalogs'', available_version = ''2.42.0''\<rparr>
   \<and> parse_upgrade_output
       (''Name              Id             Version'' @ [newline]
        @ ''----------------------------------------'' @ [newline]
        @ ''Some Old Program                   1.2.3'')
     = [\<lparr>name = ''Some Old Program'', package_id = '''', version = '''',
         source = ''1.2.3'', available_version = ''''\<rparr>]"
  by code_simp

text \<open>
  C10, amended: every record that one of the three parsers returns has a non-empty
  source. In the installed-list and search parsers the source is the last optional value
  when both are set; the single optional value when it is a recognizable source (it
  contains \<open>winget\<close> or \<open>msstore\<close>, whatever the case, or has fewer than 20 characters) and
  \<open>winget\<close> when it is not; and \<open>winget\<close> when none is set. In the upgradable-list parser
  the source is the fifth group, with no fallback.
\<close>

theorem source_never_empty:
  "(p \<in> set (parse_list_output output) \<or> p \<in> set (parse_search_output output)
      \<or> p \<in> set (parse_upgrade_output output) \<longrightarrow> source p \<noteq> [])
   \<and> (list_line raw = Some q \<or> search_line raw = Some q \<longrightarrow>
        (list_pattern (strip raw) = Some (g1, g2, g3, o4, Some t5, u) \<longrightarrow> source q = strip t5)
        \<and> (list_pattern (strip raw) = Some (g1, g2, g3, Some t4, None, u) \<longrightarrow>
             source q = (if recognizable_source (strip t4) then strip t4 else ''winget''))
        \<and> (list_pattern (strip raw) = Some (g1, g2, g3, None, None, u) \<longrightarrow>
             source q = ''winget''))
   \<and> (upgrade_line line = Some r \<and> upgrade_pattern (strip line) = Some (h1, h2, h3, h4, h5, v)
        \<longrightarrow> source r = strip h5)"
proof -
  have a: "source p \<noteq> []" if "p \<in> set (parse_table body output)"
    and "\<And>l. body l = Some p \<Longrightarrow> source p \<noteq> []" for body
    using that parse_table_member [of p body "output"] by blast
  have 1: "source p \<noteq> []"
    if "p \<in> set (parse_list_output output) \<or> p \<in> set (parse_search_output output)
      \<or> p \<in> set (parse_upgrade_output output)"
    using that line_source a
    unfolding parse_list_output_def parse_search_output_def parse_upgrade_output_def
    by blast
  have 2: "source q = strip t5"
    if "list_line raw = Some q \<or> search_line raw = Some q"
      and m: "list_pattern (strip raw) = Some (g1, g2, g3, o4, Some t5, u)"
    using that(1) list_line_match [OF _ m] search_line_match [OF _ m] record_source_fifth [OF m]
    by auto
  have 3: "source q = (if recognizable_source (strip t4) then strip t4 else ''winget'')"
    if "list_line raw = Some q \<or> search_line raw = Some q"
      and m: "list_pattern (strip raw) = Some (g1, g2, g3, Some t4, None, u)"
    using that(1) list_line_match [OF _ m] search_line_match [OF _ m] record_source_fourth [OF m]
    by auto
  have 4: "source q = ''winget''"
    if "list_line raw = Some q \<or> search_line raw = Some q"
      and m: "list_pattern (strip raw) = Some (g1, g2, g3, None, None, u)"
    using that(1) list_line_match [OF _ m] search_line_match [OF _ m] record_source_none
    by auto
  have 5: "source r = strip h5"
    if "upgrade_line line = Some r" "upgrade_pattern (strip line) = Some (h1, h2, h3, h4, h5, v)"
    using upgrade_line_match [OF that] by (simp add: upgrade_record_def)
  from 1 2 3 4 5 show ?thesis by blast
qed

theorem source_never_empty_witness:
  "parse_list_output
       (''Name       Id                   Version'' @ [newline]
        @ ''---------------------------------------'' @ [newline]
        @ ''Notepad++  Notepad++.Notepad++  8.6'')
     = [\<lparr>name = ''Notepad++'', package_id = ''Notepad++.Notepad++'', version = ''8.6'',
         source = ''winget'', available_version = ''''\<rparr>]
   \<and> source \<lparr>name = ''Notepad++'', package_id = ''Notepad++.Notepad++'', version = ''8.6'',
         source = ''winget'', available_version = ''''\<rparr> \<noteq> []
   \<and> list_pattern (strip ''Notepad++  Notepad++.Notepad++  8.6  a very long trailing remark'')
     = Some (''Notepad++'', ''Notepad++.Notepad++'', ''8.6'',
             Some ''a very long trailing remark'', None, ())
   \<and> \<not> recognizable_source (strip ''a very long trailing remark'')
   \<and> list_line ''Notepad++  Notepad++.Notepad++  8.6  a very long trailing remark''
     = Some \<lparr>name = ''Notepad++'', package_id = ''Notepad++.Notepad++'', version = ''8.6'',
              source = ''winget'', available_version = ''a very long trailing remark''\<rparr>
   \<and> source \<lparr>name = ''Notepad++'', package_id = ''Notepad++.Notepad++'', version = ''8.6'',
              source = ''winget'', available_version = ''a very long trailing remark''\<rparr>
     = ''winget''
   \<and> upgrade_pattern (strip ''Vim  vim.vim  9.0  9.1  winget'')
     = Some (''Vim'', ''vim.vim'', ''9.0'', ''9.1'', ''winget'', ())
   \<and> upgrade_line ''Vim  vim.vim  9.0  9.1  winget''
     = Some \<lparr>name = ''Vim'', package_id = ''vim.vim'', version = ''9.0'', source = ''winget'',
              available_version = ''9.1''\<rparr>
   \<and> source \<lparr>name = ''Vim'', package_id = ''vim.vim'', version = ''9.0'', source = ''winget'',
              available_version = ''9.1''\<rparr> = strip ''winget''"
proof -
  let ?text = "''Name       Id                   Version'' @ [newline]
        @ ''---------------------------------------'' @ [newline]
        @ ''Notepad++  Notepad++.Notepad++  8.6''"
  let ?p = "\<lparr>name = ''Notepad++'', package_id = ''Notepad++.Notepad++'', version = ''8.6'',
         source = ''winget'', available_version = ''''\<rparr>"
  let ?long = "''Notepad++  Notepad++.Notepad++  8.6  a very long trailing remark''"
  let ?q = "\<lparr>name = ''Notepad++'', package_id = ''Notepad++.Notepad++'', version = ''8.6'',
              source = ''winget'', available_version = ''a very long trailing remark''\<rparr>"
  let ?r = "\<lparr>name = ''Vim'', package_id = ''vim.vim'', version = ''9.0'', source = ''winget'',
              available_version = ''9.1''\<rparr>"
  have 1: "parse_list_output ?text = [?p]" by code_simp
  then have 2: "?p \<in> set (parse_list_output ?text)" by simp
  have 3: "list_pattern (strip ?long)
     = Some (''Notepad++'', ''Notepad++.Notepad++'', ''8.6'',
             Some ''a very long trailing remark'', None, ())" by code_simp
  have 4: "\<not> recognizable_source (strip ''a very long trailing remark'')" by code_simp
  have 5: "list_line ?long = Some ?q" by code_simp
  have 6: "upgrade_pattern (strip ''Vim  vim.vim  9.0  9.1  winget'')
     = Some (''Vim'', ''vim.vim'', ''9.0'', ''9.1'', ''winget'', ())" by code_simp
  have 7: "upgrade_line ''Vim  vim.vim  9.0  9.1  winget'' = Some ?r" by code_simp
  note t = source_never_empty [of ?p ?text ?long ?q "''Notepad++''" "''Notepad++.Notepad++''"
      "''8.6''" None "''x''" "()" "''a very long trailing remark''"
      "''Vim  vim.vim  9.0  9.1  winget''" ?r "''Vim''" "''vim.vim''" "''9.0''" "''9.1''"
      "''winget''" "()"]
  from t 2 have a: "source ?p \<noteq> []" by blast
  from t 3 4 5 have b: "source ?q = ''winget''" by simp
  from t 6 7 have c: "source ?r = strip ''winget''" by blast
  from 1 3 4 5 6 7 a b c show ?thesis by blast
qed

end
